theory Spec2Isabelle
  imports Main
begin

section \<open>The schedule download script \<^verbatim>\<open>makeNbaDb/testit.py\<close>\<close>

text \<open>
  The script lists the available seasons, and for each of them downloads the schedule
  from the remote API unless a file for it is already under the schedule directory.
  The model covers the loop over the seasons (lines 46 to 58) and the function
  \<^verbatim>\<open>getSchedule\<close> (lines 37 to 42). Everything the loop does to the outside is explicit:
  the files are a map from paths to contents, symbolic links are a map from paths to the
  paths they point to, and every print, sleep, HTTPS request and file opening is appended
  to a trace. What the outside answers (the remote host, the
  disk, and the library's decoder, parser and serialiser) is a parameter of the model,
  so every theorem holds whatever these answer.
\<close>

subsection \<open>Decimal rendering of integers: Python's \<^verbatim>\<open>str\<close> on an \<^verbatim>\<open>int\<close>\<close>

definition digit_char :: "nat \<Rightarrow> char" where
  "digit_char d = ''0123456789'' ! d"

fun digits :: "nat \<Rightarrow> string" where
  "digits n = (if n < 10 then [digit_char n] else digits (n div 10) @ [digit_char (n mod 10)])"

declare digits.simps [simp del]

definition str :: "int \<Rightarrow> string" where
  "str i = (if i < 0 then CHR ''-'' # digits (nat (- i)) else digits (nat i))"

subsection \<open>Paths: \<^verbatim>\<open>os.path.join\<close> and the output directories (lines 24 to 25)\<close>

text \<open>
  \<^verbatim>\<open>os.path.join\<close> with two arguments, as \<^verbatim>\<open>posixpath\<close> defines it: an absolute second
  argument replaces the first, otherwise the two are put together with one separator.
\<close>

definition os_path_join :: "string \<Rightarrow> string \<Rightarrow> string" where
  "os_path_join a b =
     (if take 1 b = ''/'' then b
      else if a = [] \<or> last a = CHR ''/'' then a @ b
      else a @ ''/'' @ b)"

definition nbaDir :: string where
  "nbaDir = ''D:/nbaBlog''"

definition schedDir :: string where
  "schedDir = os_path_join nbaDir ''schedules''"

subsection \<open>Seasons, requests, events and the world\<close>

text \<open>
  An element of \<^verbatim>\<open>allSeasons\<close>: the loop reads \<^verbatim>\<open>season["year"]\<close> and
  \<^verbatim>\<open>season["type"]["code"]\<close> and nothing else. The year is an integer and the type code
  a string, as the listing of the seasons sends them.
\<close>

record season_type =
  code :: string

record season =
  year :: int
  type :: season_type

datatype error = OSError | HTTPException | UnicodeDecodeError | JSONDecodeError

record request =
  host :: string
  timeout :: nat
  http_method :: string
  url :: string

text \<open>What the remote host sends back. The script never looks at the status.\<close>

record response =
  status :: nat
  body :: string

datatype event =
    Print string
  | Sleep nat
  | Request request
  | OpenW string

text \<open>
  The outcome of \<^verbatim>\<open>with open(outpath, 'w') as f: json.dump(seas, f)\<close>: the file cannot be
  opened (nothing is created), or writing fails after some prefix of the text, or all of
  the text is written.
\<close>

datatype write_outcome = OpenFails | WriteFails nat | WriteOk

text \<open>
  The surroundings of the loop. \<open>'u\<close> is the type of decoded text and \<open>'j\<close> the type of
  parsed structures. The remote host and the disk may answer differently as the run goes
  on: they see the trace so far.
\<close>

record ('u, 'j) env =
  srNBAKey_value :: string
  remote :: "event list \<Rightarrow> request \<Rightarrow> error + response"
  disk :: "event list \<Rightarrow> string \<Rightarrow> string \<Rightarrow> write_outcome"
  decode_utf8 :: "string \<Rightarrow> error + 'u"
  json_loads :: "'u \<Rightarrow> error + 'j"
  json_dumps :: "'j \<Rightarrow> string"

text \<open>
  The world: the regular files with their contents, the symbolic links with the paths they
  point to, and the trace. A link is looked at where it is the path itself; the directories
  on the way to a path are taken as they are.
\<close>

record world =
  files :: "string \<rightharpoonup> string"
  links :: "string \<rightharpoonup> string"
  trace :: "event list"

definition emit :: "event \<Rightarrow> world \<Rightarrow> world" where
  "emit e w = w\<lparr>trace := trace w @ [e]\<rparr>"

text \<open>
  \<^verbatim>\<open>os.path.exists\<close> and \<^verbatim>\<open>open\<close> follow symbolic links. \<open>follow n ls p\<close> is the path that
  \<open>p\<close> stands for after at most \<open>n\<close> links, and nothing when the links do not end by then;
  the system gives up after 40.
\<close>

fun follow :: "nat \<Rightarrow> (string \<rightharpoonup> string) \<Rightarrow> string \<Rightarrow> string option" where
  "follow 0 ls p = (case ls p of None \<Rightarrow> Some p | Some t \<Rightarrow> None)"
| "follow (Suc n) ls p = (case ls p of None \<Rightarrow> Some p | Some t \<Rightarrow> follow n ls t)"

definition resolve :: "world \<Rightarrow> string \<Rightarrow> string option" where
  "resolve w p = follow 40 (links w) p"

text \<open>\<^verbatim>\<open>os.path.exists\<close>: false for a link that leads to no file.\<close>

definition os_path_exists :: "world \<Rightarrow> string \<Rightarrow> bool" where
  "os_path_exists w p = (case resolve w p of None \<Rightarrow> False | Some q \<Rightarrow> files w q \<noteq> None)"

subsection \<open>\<^verbatim>\<open>getSchedule\<close> (lines 37 to 42)\<close>

definition schedule_request :: "int \<Rightarrow> string \<Rightarrow> string \<Rightarrow> request" where
  "schedule_request yr seasonType apiKey =
     \<lparr>host = ''api.sportradar.us'', timeout = 10, http_method = ''GET'',
      url = ''/nba/trial/v7/en/games/'' @ str yr @ ''/'' @ seasonType
            @ ''/schedule.json?api_key='' @ apiKey\<rparr>"

definition getSchedule ::
  "('u, 'j) env \<Rightarrow> int \<Rightarrow> string \<Rightarrow> string \<Rightarrow> world \<Rightarrow> (error + 'j) \<times> world" where
  "getSchedule E yr seasonType apiKey w =
     (let req = schedule_request yr seasonType apiKey;
          w' = emit (Request req) w
      in case remote E (trace w) req of
           Inl e \<Rightarrow> (Inl e, w')
         | Inr res \<Rightarrow>
             (case decode_utf8 E (body res) of
                Inl e \<Rightarrow> (Inl e, w')
              | Inr text \<Rightarrow> (json_loads E text, w')))"

subsection \<open>The loop over the seasons (lines 46 to 58)\<close>

definition fileName :: "season \<Rightarrow> string" where
  "fileName season = ''sched'' @ code (type season) @ str (year season) @ ''.json''"

definition outpath :: "season \<Rightarrow> string" where
  "outpath season = os_path_join schedDir (fileName season)"

text \<open>
  Lines 57 to 58: open the file for writing and dump the structure into it. Opening goes
  through symbolic links, so the text goes to the path that \<open>path\<close> stands for; links that do
  not end make \<^verbatim>\<open>open\<close> raise.
\<close>

definition json_dump :: "('u, 'j) env \<Rightarrow> string \<Rightarrow> 'j \<Rightarrow> world \<Rightarrow> error option \<times> world" where
  "json_dump E path seas w =
     (let text = json_dumps E seas;
          w' = emit (OpenW path) w
      in case resolve w path of
           None \<Rightarrow> (Some OSError, w')
         | Some q \<Rightarrow>
             (case disk E (trace w) path text of
                OpenFails \<Rightarrow> (Some OSError, w')
              | WriteFails n \<Rightarrow> (Some OSError, w'\<lparr>files := (files w')(q \<mapsto> take n text)\<rparr>)
              | WriteOk \<Rightarrow> (None, w'\<lparr>files := (files w')(q \<mapsto> text)\<rparr>)))"

text \<open>
  One iteration. The result is the error that ended the run, if any, and the world as
  the iteration leaves it.
\<close>

definition season_body :: "('u, 'j) env \<Rightarrow> season \<Rightarrow> world \<Rightarrow> error option \<times> world" where
  "season_body E season w =
     (if \<not> os_path_exists w (outpath season) then
        (let w1 = emit (Print (''downloading '' @ fileName season)) w;
             w2 = emit (Sleep 1) w1
         in case getSchedule E (year season) (code (type season)) (srNBAKey_value E) w2 of
              (Inl e, w3) \<Rightarrow> (Some e, w3)
            | (Inr seas, w3) \<Rightarrow> json_dump E (outpath season) seas w3)
      else (None, w))"

fun season_loop :: "('u, 'j) env \<Rightarrow> season list \<Rightarrow> world \<Rightarrow> error option \<times> world" where
  "season_loop E [] w = (None, w)"
| "season_loop E (season # rest) w =
     (case season_body E season w of
        (Some e, w') \<Rightarrow> (Some e, w')
      | (None, w') \<Rightarrow> season_loop E rest w')"

text \<open>The events a run adds to the trace, and the requests among some events.\<close>

definition new_events :: "world \<Rightarrow> world \<Rightarrow> event list" where
  "new_events w w' = drop (length (trace w)) (trace w')"

fun requests :: "event list \<Rightarrow> request list" where
  "requests [] = []"
| "requests (Request r # es) = r # requests es"
| "requests (e # es) = requests es"

fun opened :: "event list \<Rightarrow> string list" where
  "opened [] = []"
| "opened (OpenW p # es) = p # opened es"
| "opened (e # es) = opened es"

text \<open>
  The events of an iteration that takes the absent branch, up to the request: the progress
  notice, the pause, and the request for the season's schedule.
\<close>

definition body_events :: "('u, 'j) env \<Rightarrow> season \<Rightarrow> event list" where
  "body_events E season =
     [Print (''downloading '' @ fileName season), Sleep 1,
      Request (schedule_request (year season) (code (type season)) (srNBAKey_value E))]"

text \<open>
  Every request in a list of events comes right after a pause of 1: a request at the head
  has no pause before it, and a pause followed by a request must be of length 1.
\<close>

fun throttled :: "event list \<Rightarrow> bool" where
  "throttled [] = True"
| "throttled (Request r # es) = False"
| "throttled (Sleep n # Request r # es) = (n = 1 \<and> throttled es)"
| "throttled (e # es) = throttled es"

subsection \<open>Reading a decimal rendering back\<close>

definition digit_val :: "char \<Rightarrow> nat" where
  "digit_val c = of_char c - 48"

definition decimal_val :: "string \<Rightarrow> nat" where
  "decimal_val s = foldl (\<lambda>a c. 10 * a + digit_val c) 0 s"

definition parse_int :: "string \<Rightarrow> int" where
  "parse_int s =
     (case s of CHR ''-'' # ds \<Rightarrow> - int (decimal_val ds) | _ \<Rightarrow> int (decimal_val s))"

subsection \<open>Parsed structures and reading a cache file back\<close>









subsection \<open>The library on scalars\<close>






subsection \<open>Environments, seasons and worlds to run the model on\<close>

text \<open>Every request is answered with an empty JSON object, and every write goes through.\<close>

definition ok_env :: "(string, string) env" where
  "ok_env =
     \<lparr>srNBAKey_value = ''key'',
      remote = (\<lambda>h r. Inr \<lparr>status = 200, body = ''{}''\<rparr>),
      disk = (\<lambda>h p t. WriteOk),
      decode_utf8 = Inr,
      json_loads = (\<lambda>t. if t = ''{}'' then Inr t else Inl JSONDecodeError),
      json_dumps = (\<lambda>j. j)\<rparr>"

text \<open>The remote host cannot be reached for the regular season of 2023.\<close>

definition flaky_env :: "(string, string) env" where
  "flaky_env = ok_env\<lparr>remote := (\<lambda>h r.
     if url r = ''/nba/trial/v7/en/games/2023/REG/schedule.json?api_key=key''
     then Inl OSError else Inr \<lparr>status = 200, body = ''{}''\<rparr>)\<rparr>"

text \<open>The remote host refuses every request with a page that is not JSON.\<close>

definition html_env :: "(string, string) env" where
  "html_env = ok_env\<lparr>remote := (\<lambda>h r.
     Inr \<lparr>status = 403, body = ''<h1>Developer Inactive</h1>''\<rparr>)\<rparr>"

text \<open>
  The remote host refuses the request for the regular season of 2023, and the body of the
  refusal is JSON.
\<close>

definition refused_env :: "(string, string) env" where
  "refused_env = ok_env\<lparr>remote := (\<lambda>h r.
     if url r = ''/nba/trial/v7/en/games/2023/REG/schedule.json?api_key=key''
     then Inr \<lparr>status = 403, body = ''{}''\<rparr> else Inr \<lparr>status = 200, body = ''{}''\<rparr>)\<rparr>"


definition reg2021 :: season where
  "reg2021 = \<lparr>year = 2021, type = \<lparr>code = ''REG''\<rparr>\<rparr>"

definition pst2021 :: season where
  "pst2021 = \<lparr>year = 2021, type = \<lparr>code = ''PST''\<rparr>\<rparr>"

definition pst2022 :: season where
  "pst2022 = \<lparr>year = 2022, type = \<lparr>code = ''PST''\<rparr>\<rparr>"

definition reg2023 :: season where
  "reg2023 = \<lparr>year = 2023, type = \<lparr>code = ''REG''\<rparr>\<rparr>"

definition pst2023 :: season where
  "pst2023 = \<lparr>year = 2023, type = \<lparr>code = ''PST''\<rparr>\<rparr>"

definition empty_world :: world where
  "empty_world = \<lparr>files = Map.empty, links = Map.empty, trace = []\<rparr>"

text \<open>A world with the schedule of the regular season of 2021 cached, and one other file.\<close>

definition cached_world :: world where
  "cached_world =
     \<lparr>files = [''D:/nbaBlog/schedules/schedREG2021.json'' \<mapsto> ''{}'',
               ''D:/nbaBlog/notes.txt'' \<mapsto> ''todo''],
      links = Map.empty,
      trace = []\<rparr>"


section \<open>Properties\<close>

subsection \<open>Following links\<close>

lemma follow_no_link: "ls p = None \<Longrightarrow> follow n ls p = Some p"
  by (cases n) simp_all

lemma resolve_no_link: "links w p = None \<Longrightarrow> resolve w p = Some p"
  by (simp add: resolve_def follow_no_link)



lemma resolve_same_links: "links w' = links w \<Longrightarrow> resolve w' p = resolve w p"
  by (simp add: resolve_def)

lemma resolve_trace_update [simp]: "resolve (w\<lparr>trace := t\<rparr>) p = resolve w p"
  by (simp add: resolve_def)

lemma resolve_files_update [simp]: "resolve (w\<lparr>files := f\<rparr>) p = resolve w p"
  by (simp add: resolve_def)

lemmas run_simps =
  season_body_def getSchedule_def json_dump_def emit_def Let_def os_path_exists_def
  resolve_no_link
  outpath_def fileName_def schedDir_def nbaDir_def os_path_join_def str_def digits.simps
  digit_char_def schedule_request_def new_events_def

lemmas input_simps =
  ok_env_def flaky_env_def html_env_def refused_env_def empty_world_def cached_world_def
  reg2021_def pst2021_def pst2022_def reg2023_def pst2023_def


subsection \<open>The decimal rendering is injective and has no slash\<close>

lemma digit_char_cases:
  assumes "d < 10"
  shows "digit_char d \<in> set ''0123456789''" and "digit_val (digit_char d) = d"
proof -
  from assms have "d \<in> {0, 1, 2, 3, 4, 5, 6, 7, 8, 9}" by auto
  then show "digit_char d \<in> set ''0123456789''" and "digit_val (digit_char d) = d"
    by (auto simp: digit_char_def digit_val_def)
qed

lemma digits_set: "set (digits n) \<subseteq> set ''0123456789''"
proof (induction n rule: digits.induct)
  case (1 n)
  show ?case
  proof (cases "n < 10")
    case True
    then show ?thesis using digit_char_cases(1) [of n] by (subst digits.simps) simp
  next
    case False
    then have "set (digits (n div 10)) \<subseteq> set ''0123456789''" using 1 by simp
    moreover have "digit_char (n mod 10) \<in> set ''0123456789''"
      by (rule digit_char_cases(1)) simp
    ultimately show ?thesis using False by (subst digits.simps) simp
  qed
qed

lemma decimal_val_snoc: "decimal_val (ds @ [c]) = 10 * decimal_val ds + digit_val c"
  by (simp add: decimal_val_def)

lemma decimal_val_digits: "decimal_val (digits n) = n"
proof (induction n rule: digits.induct)
  case (1 n)
  show ?case
  proof (cases "n < 10")
    case True
    then show ?thesis
      using digit_char_cases(2) [of n] by (subst digits.simps) (simp add: decimal_val_def)
  next
    case False
    then have "decimal_val (digits (n div 10)) = n div 10" using 1 by simp
    moreover have "digit_val (digit_char (n mod 10)) = n mod 10"
      by (rule digit_char_cases(2)) simp
    ultimately show ?thesis using False
      by (subst digits.simps) (simp add: decimal_val_snoc)
  qed
qed

lemma digits_nonempty: "digits n \<noteq> []"
  by (subst digits.simps) simp

lemma digits_no_minus: "hd (digits n) \<noteq> CHR ''-''"
proof -
  have "hd (digits n) \<in> set (digits n)" using digits_nonempty by simp
  then have "hd (digits n) \<in> set ''0123456789''" using digits_set by blast
  then show ?thesis by auto
qed

lemma parse_int_str: "parse_int (str i) = i"
proof (cases "i < 0")
  case True
  then show ?thesis by (simp add: parse_int_def str_def decimal_val_digits)
next
  case False
  obtain c cs where cs: "digits (nat i) = c # cs"
    using digits_nonempty [of "nat i"] by (cases "digits (nat i)") auto
  have "c \<noteq> CHR ''-''" using digits_no_minus [of "nat i"] cs by simp
  then have "parse_int (c # cs) = int (decimal_val (c # cs))"
    by (simp add: parse_int_def split: char.splits bool.splits)
  then show ?thesis using False cs decimal_val_digits [of "nat i"] by (simp add: str_def)
qed

lemma str_inject: "str i = str j \<Longrightarrow> i = j"
  by (metis parse_int_str)

lemma str_no_slash: "CHR ''/'' \<notin> set (str i)"
proof -
  have "CHR ''/'' \<notin> set (digits n)" for n
    using digits_set [of n] by auto
  then show ?thesis by (simp add: str_def)
qed

lemma split_at_unique:
  "c \<notin> set xs \<Longrightarrow> c \<notin> set xs' \<Longrightarrow> xs @ c # ys = xs' @ c # ys' \<Longrightarrow> xs = xs' \<and> ys = ys'"
proof (induction xs arbitrary: xs')
  case Nil
  then show ?case by (cases xs') auto
next
  case (Cons x xs)
  then show ?case by (cases xs') auto
qed

lemma schedule_request_inject:
  assumes "schedule_request y t k = schedule_request y' t' k"
  shows "y = y' \<and> t = t'"
proof -
  from assms have "str y @ CHR ''/'' # (t @ ''/schedule.json?api_key='' @ k)
      = str y' @ CHR ''/'' # (t' @ ''/schedule.json?api_key='' @ k)"
    by (simp add: schedule_request_def)
  then have "str y = str y' \<and> t @ ''/schedule.json?api_key='' @ k = t' @ ''/schedule.json?api_key='' @ k"
    using split_at_unique [OF str_no_slash str_no_slash] by blast
  then show ?thesis using str_inject by simp
qed

subsection \<open>Integer literals\<close>









subsection \<open>The cache key\<close>

text \<open>
  C2. The file name of a season is \<^verbatim>\<open>"sched"\<close>, then the type code, then the year in
  decimal (reading the digits back gives the year), then \<^verbatim>\<open>".json"\<close>; it is a function of
  the season's two fields alone, and for the year 2021 and the type code \<^verbatim>\<open>REG\<close> it is
  \<^verbatim>\<open>schedREG2021.json\<close>.
\<close>

theorem fileName_deterministic:
  "fileName \<lparr>year = y, type = \<lparr>code = t\<rparr>\<rparr> = ''sched'' @ t @ str y @ ''.json''
   \<and> parse_int (str y) = y
   \<and> fileName \<lparr>year = 2021, type = \<lparr>code = ''REG''\<rparr>\<rparr> = ''schedREG2021.json''"
  by (simp add: fileName_def parse_int_str) (simp add: str_def digits.simps digit_char_def)

subsection \<open>One iteration\<close>

lemma season_body_skip:
  "os_path_exists w (outpath s) \<Longrightarrow> season_body E s w = (None, w)"
  by (simp add: season_body_def)

lemma season_body_trace:
  "trace (snd (season_body E s w)) = trace w
   \<or> trace (snd (season_body E s w)) = trace w @ body_events E s
   \<or> trace (snd (season_body E s w)) = trace w @ body_events E s @ [OpenW (outpath s)]"
  by (simp add: season_body_def getSchedule_def json_dump_def emit_def Let_def body_events_def
      split: sum.splits write_outcome.splits prod.splits option.splits)

lemma season_body_links: "links (snd (season_body E s w)) = links w"
  by (simp add: season_body_def getSchedule_def json_dump_def emit_def Let_def
      split: sum.splits write_outcome.splits prod.splits option.splits)

lemma season_body_files:
  "files (snd (season_body E s w)) = files w
   \<or> (\<exists>q t. resolve w (outpath s) = Some q \<and> files w q = None
          \<and> files (snd (season_body E s w)) = (files w)(q \<mapsto> t))"
  by (auto simp add: season_body_def getSchedule_def json_dump_def emit_def Let_def
      os_path_exists_def
      split: sum.splits write_outcome.splits prod.splits option.splits)

lemma season_body_done:
  "season_body E s w = (None, w') \<Longrightarrow> os_path_exists w' (outpath s)"
  by (auto simp add: season_body_def getSchedule_def json_dump_def emit_def Let_def
      os_path_exists_def
      split: sum.splits write_outcome.splits prod.splits if_splits option.splits)

lemma getSchedule_world:
  "snd (getSchedule E yr t k w) = emit (Request (schedule_request yr t k)) w"
  by (simp add: getSchedule_def Let_def split: sum.splits)

lemma season_body_raise:
  assumes "\<not> os_path_exists w (outpath s)"
    and "fst (getSchedule E (year s) (code (type s)) (srNBAKey_value E)
           (emit (Sleep 1) (emit (Print (''downloading '' @ fileName s)) w))) = Inl e"
  shows "season_body E s w = (Some e, w\<lparr>trace := trace w @ body_events E s\<rparr>)"
proof -
  obtain r w3 where g: "getSchedule E (year s) (code (type s)) (srNBAKey_value E)
      (emit (Sleep 1) (emit (Print (''downloading '' @ fileName s)) w)) = (r, w3)"
    by (cases "getSchedule E (year s) (code (type s)) (srNBAKey_value E)
      (emit (Sleep 1) (emit (Print (''downloading '' @ fileName s)) w))")
  have "r = Inl e" using assms(2) g by simp
  moreover have "w3 = emit (Request (schedule_request (year s) (code (type s)) (srNBAKey_value E)))
      (emit (Sleep 1) (emit (Print (''downloading '' @ fileName s)) w))"
    using getSchedule_world [of E "year s" "code (type s)" "srNBAKey_value E"
        "emit (Sleep 1) (emit (Print (''downloading '' @ fileName s)) w)"] g
    by simp
  ultimately show ?thesis
    using assms(1) g by (simp add: season_body_def Let_def emit_def body_events_def)
qed

lemma season_loop_skip:
  "\<forall>s \<in> set ss. os_path_exists w (outpath s) \<Longrightarrow> season_loop E ss w = (None, w)"
  by (induction ss) (simp_all add: season_body_skip)

subsection \<open>The trace of a run\<close>

lemma requests_append: "requests (xs @ ys) = requests xs @ requests ys"
  by (induction xs rule: requests.induct) simp_all

lemma opened_append: "opened (xs @ ys) = opened xs @ opened ys"
  by (induction xs rule: opened.induct) simp_all

lemma new_events_append: "trace w' = trace w @ evs \<Longrightarrow> new_events w w' = evs"
  by (simp add: new_events_def)

lemma season_loop_trace: "\<exists>evs. trace (snd (season_loop E ss w)) = trace w @ evs"
proof (induction ss arbitrary: w)
  case Nil
  show ?case by simp
next
  case (Cons s ss)
  obtain r w' where b: "season_body E s w = (r, w')" by (cases "season_body E s w")
  obtain evs where evs: "trace w' = trace w @ evs"
    using season_body_trace [of E s w] b by auto
  show ?case
  proof (cases r)
    case None
    obtain evs' where "trace (snd (season_loop E ss w')) = trace w' @ evs'"
      using Cons.IH by blast
    then show ?thesis using b None evs by simp
  next
    case (Some e)
    then show ?thesis using b evs by simp
  qed
qed

lemma trace_new_events:
  "trace (snd (season_loop E ss w)) = trace w @ new_events w (snd (season_loop E ss w))"
  using season_loop_trace [of E ss w] by (auto simp: new_events_def)

text \<open>Splitting the events of a run at the first iteration.\<close>

lemma new_events_Cons:
  assumes "season_body E s w = (None, w')"
  shows "new_events w (snd (season_loop E (s # ss) w))
         = new_events w w' @ new_events w' (snd (season_loop E ss w'))"
proof -
  obtain evs where evs: "trace w' = trace w @ evs"
    using season_body_trace [of E s w] assms by auto
  obtain evs' where evs': "trace (snd (season_loop E ss w')) = trace w' @ evs'"
    using season_loop_trace by blast
  show ?thesis using assms evs evs' by (simp add: new_events_def)
qed

lemma new_events_Cons_error:
  assumes "season_body E s w = (Some e, w')"
  shows "new_events w (snd (season_loop E (s # ss) w)) = new_events w w'"
  using assms by simp

lemma season_body_new_events:
  "new_events w (snd (season_body E s w)) = []
   \<or> new_events w (snd (season_body E s w)) = body_events E s
   \<or> new_events w (snd (season_body E s w)) = body_events E s @ [OpenW (outpath s)]"
  using season_body_trace [of E s w] by (auto simp: new_events_def)

lemma season_body_new_events_absent:
  "\<not> os_path_exists w (outpath s) \<Longrightarrow>
   new_events w (snd (season_body E s w)) = body_events E s
   \<or> new_events w (snd (season_body E s w)) = body_events E s @ [OpenW (outpath s)]"
  by (simp add: season_body_def getSchedule_def json_dump_def emit_def Let_def body_events_def
      new_events_def split: sum.splits write_outcome.splits prod.splits option.splits)

lemma throttled_loop: "throttled (new_events w (snd (season_loop E ss w)))"
proof (induction ss arbitrary: w)
  case Nil
  show ?case by (simp add: new_events_def)
next
  case (Cons s ss)
  obtain r w' where b: "season_body E s w = (r, w')" by (cases "season_body E s w")
  have c: "new_events w w' = [] \<or> new_events w w' = body_events E s
     \<or> new_events w w' = body_events E s @ [OpenW (outpath s)]"
    using season_body_new_events [of w E s] b by simp
  show ?case
  proof (cases r)
    case None
    have "throttled (new_events w' (snd (season_loop E ss w')))" by (rule Cons.IH)
    moreover have "new_events w (snd (season_loop E (s # ss) w))
         = new_events w w' @ new_events w' (snd (season_loop E ss w'))"
      using new_events_Cons b None by blast
    ultimately show ?thesis using c by (auto simp: body_events_def)
  next
    case (Some e)
    then have "new_events w (snd (season_loop E (s # ss) w)) = new_events w w'"
      using b by simp
    then show ?thesis using c by (auto simp: body_events_def)
  qed
qed

lemma throttled_nth:
  "throttled es \<Longrightarrow> i < length es \<Longrightarrow> es ! i = Request r \<Longrightarrow> 0 < i \<and> es ! (i - 1) = Sleep 1"
proof (induction es arbitrary: i rule: throttled.induct)
  case (3 n r' es)
  then show ?case by (cases i; cases "i - 1") (auto simp: nth_Cons')
qed (simp, simp, (case_tac i; auto simp: nth_Cons')+)

subsection \<open>The files of a run\<close>

lemma season_body_keeps:
  "files w p \<noteq> None \<Longrightarrow> files (snd (season_body E s w)) p = files w p"
  using season_body_files [of E s w] by auto


lemma season_body_exists:
  "os_path_exists w p \<Longrightarrow> os_path_exists (snd (season_body E s w)) p"
  using season_body_keeps [of w _ E s] resolve_same_links [OF season_body_links, of E s w p]
  by (auto simp: os_path_exists_def split: option.splits)

lemma season_loop_links: "links (snd (season_loop E ss w)) = links w"
proof (induction ss arbitrary: w)
  case Nil
  show ?case by simp
next
  case (Cons s ss)
  obtain r w' where b: "season_body E s w = (r, w')" by (cases "season_body E s w")
  have "links w' = links w" using season_body_links [of E s w] b by simp
  then show ?case using b Cons.IH [of w'] by (cases r) simp_all
qed

lemma season_loop_keeps:
  "files w p \<noteq> None \<Longrightarrow> files (snd (season_loop E ss w)) p = files w p"
proof (induction ss arbitrary: w)
  case Nil
  show ?case by simp
next
  case (Cons s ss)
  obtain r w' where b: "season_body E s w = (r, w')" by (cases "season_body E s w")
  have k: "files w' p = files w p" using season_body_keeps [of w p E s] b Cons.prems by simp
  show ?case
  proof (cases r)
    case None
    have "files (snd (season_loop E ss w')) p = files w' p"
      using Cons.IH [of w'] k Cons.prems by simp
    then show ?thesis using b None k by simp
  next
    case (Some e)
    then show ?thesis using b k by simp
  qed
qed


lemma season_loop_exists:
  "os_path_exists w p \<Longrightarrow> os_path_exists (snd (season_loop E ss w)) p"
  using season_loop_keeps [of w _ E ss] resolve_same_links [OF season_loop_links, of E ss w p]
  by (auto simp: os_path_exists_def split: option.splits)

lemma season_loop_populates:
  "season_loop E ss w = (None, w') \<Longrightarrow> s \<in> set ss \<Longrightarrow> os_path_exists w' (outpath s)"
proof (induction ss arbitrary: w)
  case Nil
  then show ?case by simp
next
  case (Cons a ss)
  obtain r w1 where b: "season_body E a w = (r, w1)" by (cases "season_body E a w")
  have r: "r = None" using Cons.prems(1) b by (cases r) auto
  then have l: "season_loop E ss w1 = (None, w')" using Cons.prems(1) b by simp
  show ?case
  proof (cases "s = a")
    case True
    have "os_path_exists w1 (outpath a)" using season_body_done b r by blast
    then show ?thesis using season_loop_exists [of w1 "outpath a" E ss] l True by simp
  next
    case False
    then show ?thesis using Cons.IH [OF l] Cons.prems(2) by simp
  qed
qed

lemma no_refetch:
  "os_path_exists w (outpath s) \<Longrightarrow>
   schedule_request (year s) (code (type s)) (srNBAKey_value E)
     \<notin> set (requests (new_events w (snd (season_loop E ss w))))"
proof (induction ss arbitrary: w)
  case Nil
  show ?case by (simp add: new_events_def)
next
  case (Cons a ss)
  obtain r w' where b: "season_body E a w = (r, w')" by (cases "season_body E a w")
  have ex': "os_path_exists w' (outpath s)"
    using season_body_exists [of w "outpath s" E a] b Cons.prems by simp
  have here: "schedule_request (year s) (code (type s)) (srNBAKey_value E)
      \<notin> set (requests (new_events w w'))"
  proof (cases "os_path_exists w (outpath a)")
    case True
    then show ?thesis using season_body_skip [of w a E] b by (simp add: new_events_def)
  next
    case False
    then have "outpath a \<noteq> outpath s" using Cons.prems by auto
    then have "\<not> (year a = year s \<and> code (type a) = code (type s))"
      by (auto simp: outpath_def fileName_def)
    then have "schedule_request (year a) (code (type a)) (srNBAKey_value E)
        \<noteq> schedule_request (year s) (code (type s)) (srNBAKey_value E)"
      using schedule_request_inject by blast
    then show ?thesis
      using season_body_new_events [of w E a] b
      by (auto simp: body_events_def)
  qed
  show ?case
  proof (cases r)
    case None
    have "new_events w (snd (season_loop E (a # ss) w))
         = new_events w w' @ new_events w' (snd (season_loop E ss w'))"
      using new_events_Cons b None by blast
    then show ?thesis using here Cons.IH [OF ex'] by (simp add: requests_append)
  next
    case (Some e)
    then show ?thesis using here b by simp
  qed
qed

lemma requests_distinct: "distinct (requests (new_events w (snd (season_loop E ss w))))"
proof (induction ss arbitrary: w)
  case Nil
  show ?case by (simp add: new_events_def)
next
  case (Cons a ss)
  obtain r w' where b: "season_body E a w = (r, w')" by (cases "season_body E a w")
  have c: "requests (new_events w w') = []
     \<or> requests (new_events w w') = [schedule_request (year a) (code (type a)) (srNBAKey_value E)]"
    using season_body_new_events [of w E a] b by (auto simp: body_events_def)
  show ?case
  proof (cases r)
    case None
    have ex: "os_path_exists w' (outpath a)" using season_body_done b None by blast
    have split: "new_events w (snd (season_loop E (a # ss) w))
         = new_events w w' @ new_events w' (snd (season_loop E ss w'))"
      using new_events_Cons b None by blast
    show ?thesis unfolding split requests_append
      using c Cons.IH [of w'] no_refetch [OF ex, of E ss] by auto
  next
    case (Some e)
    then show ?thesis using c b by auto
  qed
qed

lemma season_loop_append:
  "season_loop E (xs @ ys) w =
     (case season_loop E xs w of (Some e, w') \<Rightarrow> (Some e, w') | (None, w') \<Rightarrow> season_loop E ys w')"
  by (induction xs arbitrary: w) (auto split: prod.splits option.splits)

lemma distinct_count_le_1: "distinct xs \<Longrightarrow> count_list xs x \<le> 1"
  by (induction xs) (auto simp: count_list_0_iff)

lemma season_loop_single:
  "season_loop E [s] w = season_body E s w"
  by (cases "season_body E s w") (auto split: option.splits)

subsection \<open>Skipping what is cached\<close>

text \<open>
  C3. When the file of a season is already there at the time of the check, the iteration
  for that season does nothing: it makes no request, opens no file, and leaves the files
  and the trace as they are.
\<close>

theorem skip_on_presence:
  assumes "os_path_exists w (outpath s)"
  shows "season_body E s w = (None, w)
         \<and> requests (new_events w (snd (season_body E s w))) = []
         \<and> opened (new_events w (snd (season_body E s w))) = []
         \<and> files (snd (season_body E s w)) = files w"
  using season_body_skip [OF assms, of E] by (simp add: new_events_def)

theorem skip_on_presence_witness:
  "os_path_exists cached_world (outpath reg2021)
   \<and> season_body ok_env reg2021 cached_world = (None, cached_world)
   \<and> requests (new_events cached_world (snd (season_body ok_env reg2021 cached_world))) = []"
proof -
  have h: "os_path_exists cached_world (outpath reg2021)"
    by (simp add: run_simps input_simps)
  show ?thesis using h skip_on_presence [OF h, of ok_env] by blast
qed

text \<open>
  C1. When every season of the list has its file, a run over the list makes no request at
  all: every iteration takes the skip branch and the world is left as it is. This is the
  state a first complete run leaves behind (\<open>rerun_after_success\<close> below).
\<close>

theorem second_run_no_fetch:
  assumes "\<forall>s \<in> set allSeasons. os_path_exists w (outpath s)"
  shows "season_loop E allSeasons w = (None, w)
         \<and> requests (new_events w (snd (season_loop E allSeasons w))) = []"
  using season_loop_skip [OF assms, of E] by (simp add: new_events_def)

theorem second_run_no_fetch_witness:
  "os_path_exists (snd (season_loop ok_env [reg2021, pst2022] empty_world)) (outpath reg2021)
   \<and> os_path_exists (snd (season_loop ok_env [reg2021, pst2022] empty_world)) (outpath pst2022)
   \<and> requests (new_events (snd (season_loop ok_env [reg2021, pst2022] empty_world))
        (snd (season_loop ok_env [reg2021, pst2022]
           (snd (season_loop ok_env [reg2021, pst2022] empty_world))))) = []"
proof -
  have a: "os_path_exists (snd (season_loop ok_env [reg2021, pst2022] empty_world))
      (outpath reg2021)"
    by (simp add: run_simps input_simps)
  have b: "os_path_exists (snd (season_loop ok_env [reg2021, pst2022] empty_world))
      (outpath pst2022)"
    by (simp add: run_simps input_simps)
  have h: "\<forall>s \<in> set [reg2021, pst2022].
      os_path_exists (snd (season_loop ok_env [reg2021, pst2022] empty_world)) (outpath s)"
    using a b by (simp del: season_loop.simps)
  show ?thesis using a b second_run_no_fetch [OF h, of ok_env] by blast
qed

text \<open>
  A run that went through all the seasons leaves a file for each of them, so a second run
  over the same seasons changes nothing, whatever the surroundings are by then.
\<close>

lemma rerun_after_success:
  assumes "season_loop E allSeasons w = (None, w1)"
  shows "season_loop E' allSeasons w1 = (None, w1)"
proof -
  have "\<forall>s \<in> set allSeasons. os_path_exists w1 (outpath s)"
    using season_loop_populates [OF assms] by blast
  then show ?thesis by (rule season_loop_skip)
qed

subsection \<open>Fetching what is absent\<close>

text \<open>
  C4. When the file of the post season of 2022 is absent (as it is in an empty schedule
  directory), a run over that one season makes exactly one request, the one for the
  schedule of the year 2022 and the type \<^verbatim>\<open>PST\<close>. When the request is answered, the body
  decodes and parses to a structure, and the disk takes the write, the run ends without an
  error and has put the serialised structure into what \<^verbatim>\<open>schedPST2022.json\<close> under the
  schedule directory stands for; that is this path itself when it is not a symbolic link,
  as in an empty directory.
\<close>

theorem fetch_on_absence:
  assumes "\<not> os_path_exists w (outpath pst2022)"
  shows "requests (new_events w (snd (season_loop E [pst2022] w)))
           = [\<lparr>host = ''api.sportradar.us'', timeout = 10, http_method = ''GET'',
               url = ''/nba/trial/v7/en/games/2022/PST/schedule.json?api_key=''
                     @ srNBAKey_value E\<rparr>]
         \<and> (remote E (trace w @ [Print ''downloading schedPST2022.json'', Sleep 1])
               (schedule_request 2022 ''PST'' (srNBAKey_value E)) = Inr res
            \<and> decode_utf8 E (body res) = Inr text
            \<and> json_loads E text = Inr seas
            \<and> resolve w (os_path_join schedDir ''schedPST2022.json'') = Some q
            \<and> disk E (trace w @ body_events E pst2022)
                 (os_path_join schedDir ''schedPST2022.json'') (json_dumps E seas) = WriteOk
            \<longrightarrow> fst (season_loop E [pst2022] w) = None
                \<and> files (snd (season_loop E [pst2022] w)) = (files w)(q \<mapsto> json_dumps E seas))
         \<and> (links w (os_path_join schedDir ''schedPST2022.json'') = None
            \<longrightarrow> resolve w (os_path_join schedDir ''schedPST2022.json'')
                = Some (os_path_join schedDir ''schedPST2022.json''))"
proof -
  have name: "fileName pst2022 = ''schedPST2022.json''"
    by (simp add: fileName_def pst2022_def str_def digits.simps digit_char_def)
  have req: "schedule_request (year pst2022) (code (type pst2022)) (srNBAKey_value E)
      = \<lparr>host = ''api.sportradar.us'', timeout = 10, http_method = ''GET'',
         url = ''/nba/trial/v7/en/games/2022/PST/schedule.json?api_key='' @ srNBAKey_value E\<rparr>"
    by (simp add: schedule_request_def pst2022_def str_def digits.simps digit_char_def)
  have "requests (new_events w (snd (season_body E pst2022 w)))
      = [schedule_request (year pst2022) (code (type pst2022)) (srNBAKey_value E)]"
    using season_body_new_events_absent [OF assms, of E]
    by (auto simp: body_events_def requests_append)
  then have one: "requests (new_events w (snd (season_loop E [pst2022] w)))
      = [\<lparr>host = ''api.sportradar.us'', timeout = 10, http_method = ''GET'',
          url = ''/nba/trial/v7/en/games/2022/PST/schedule.json?api_key='' @ srNBAKey_value E\<rparr>]"
    by (simp only: season_loop_single req)
  have written: "fst (season_body E pst2022 w) = None
      \<and> files (snd (season_body E pst2022 w)) = (files w)(q \<mapsto> json_dumps E seas)"
    if "remote E (trace w @ [Print ''downloading schedPST2022.json'', Sleep 1])
               (schedule_request 2022 ''PST'' (srNBAKey_value E)) = Inr res"
      and "decode_utf8 E (body res) = Inr text"
      and "json_loads E text = Inr seas"
      and "resolve w (os_path_join schedDir ''schedPST2022.json'') = Some q"
      and "disk E (trace w @ body_events E pst2022)
                 (os_path_join schedDir ''schedPST2022.json'') (json_dumps E seas) = WriteOk"
    using that assms name
    by (simp add: season_body_def getSchedule_def json_dump_def emit_def Let_def outpath_def
        body_events_def pst2022_def)
  show ?thesis using one written resolve_no_link [of w]
    by (simp only: season_loop_single) blast
qed

theorem fetch_on_absence_witness:
  "\<not> os_path_exists empty_world (outpath pst2022)
   \<and> requests (new_events empty_world (snd (season_loop ok_env [pst2022] empty_world)))
       = [\<lparr>host = ''api.sportradar.us'', timeout = 10, http_method = ''GET'',
           url = ''/nba/trial/v7/en/games/2022/PST/schedule.json?api_key=key''\<rparr>]
   \<and> fst (season_loop ok_env [pst2022] empty_world) = None
   \<and> files (snd (season_loop ok_env [pst2022] empty_world))
       = [''D:/nbaBlog/schedules/schedPST2022.json'' \<mapsto> ''{}'']"
proof -
  have h: "\<not> os_path_exists empty_world (outpath pst2022)"
    by (simp add: os_path_exists_def resolve_no_link empty_world_def)
  have r: "remote ok_env (trace empty_world @ [Print ''downloading schedPST2022.json'', Sleep 1])
      (schedule_request 2022 ''PST'' (srNBAKey_value ok_env)) = Inr \<lparr>status = 200, body = ''{}''\<rparr>"
    by (simp add: ok_env_def)
  have d: "decode_utf8 ok_env (body \<lparr>status = 200, body = ''{}''\<rparr>) = Inr ''{}''"
    by (simp add: ok_env_def)
  have l: "json_loads ok_env ''{}'' = Inr ''{}''"
    by (simp add: ok_env_def)
  have n: "links empty_world (os_path_join schedDir ''schedPST2022.json'') = None"
    by (simp add: empty_world_def)
  have q: "resolve empty_world (os_path_join schedDir ''schedPST2022.json'')
      = Some (os_path_join schedDir ''schedPST2022.json'')"
    using n by (rule resolve_no_link)
  have k: "disk ok_env (trace empty_world @ body_events ok_env pst2022)
      (os_path_join schedDir ''schedPST2022.json'') (json_dumps ok_env ''{}'') = WriteOk"
    by (simp add: ok_env_def)
  have p: "os_path_join schedDir ''schedPST2022.json'' = ''D:/nbaBlog/schedules/schedPST2022.json''"
    by (simp add: os_path_join_def schedDir_def nbaDir_def)
  show ?thesis
    using h r d l q k n
      fetch_on_absence [OF h, of ok_env "\<lparr>status = 200, body = ''{}''\<rparr>" "''{}''" "''{}''"
        "os_path_join schedDir ''schedPST2022.json''"]
    by (simp add: p ok_env_def empty_world_def)
qed

text \<open>
  C9. When a body was fetched and decoding or parsing it fails, the iteration ends with
  that error, the files are as they were, and no file was opened for writing.
\<close>

theorem parse_failure_creates_no_file:
  assumes "\<not> os_path_exists w (outpath s)"
    and "remote E (trace w @ [Print (''downloading '' @ fileName s), Sleep 1])
           (schedule_request (year s) (code (type s)) (srNBAKey_value E)) = Inr res"
    and "decode_utf8 E (body res) = Inl e
         \<or> (\<exists>text. decode_utf8 E (body res) = Inr text \<and> json_loads E text = Inl e)"
  shows "fst (season_body E s w) = Some e
         \<and> files (snd (season_body E s w)) = files w
         \<and> opened (new_events w (snd (season_body E s w))) = []"
  using assms
  by (auto simp: season_body_def getSchedule_def emit_def Let_def new_events_def)

theorem parse_failure_creates_no_file_witness:
  "\<not> os_path_exists empty_world (outpath pst2022)
   \<and> fst (season_body html_env pst2022 empty_world) = Some JSONDecodeError
   \<and> files (snd (season_body html_env pst2022 empty_world)) = files empty_world
   \<and> opened (new_events empty_world (snd (season_body html_env pst2022 empty_world))) = []"
proof -
  have h: "\<not> os_path_exists empty_world (outpath pst2022)"
    by (simp add: os_path_exists_def resolve_no_link empty_world_def)
  have r: "remote html_env
      (trace empty_world @ [Print (''downloading '' @ fileName pst2022), Sleep 1])
      (schedule_request (year pst2022) (code (type pst2022)) (srNBAKey_value html_env))
      = Inr \<lparr>status = 403, body = ''<h1>Developer Inactive</h1>''\<rparr>"
    by (simp add: html_env_def)
  have p: "decode_utf8 html_env (body \<lparr>status = 403, body = ''<h1>Developer Inactive</h1>''\<rparr>)
        = Inl JSONDecodeError
      \<or> (\<exists>text. decode_utf8 html_env (body \<lparr>status = 403, body = ''<h1>Developer Inactive</h1>''\<rparr>)
            = Inr text \<and> json_loads html_env text = Inl JSONDecodeError)"
    by (simp add: html_env_def ok_env_def)
  show ?thesis using h parse_failure_creates_no_file [OF h r p] by blast
qed

subsection \<open>Failing fast\<close>

text \<open>
  C5. Let the run have gone through the earlier seasons without an error, let the file of
  the next season \<open>s\<close> be absent, and let \<^verbatim>\<open>getSchedule\<close> raise an error for \<open>s\<close> (the remote
  host cannot be reached, or the body does not decode, or does not parse). Then the run
  over the whole list ends with that error; the files are exactly those the earlier seasons
  left; and after the earlier seasons the only events are the notice, the pause and the
  request for \<open>s\<close>, so nothing is requested for a later season. A response that is not a
  success is no error by itself: see \<open>non_success_response_goes_on\<close> below.
\<close>

theorem fail_fast:
  assumes "fst (season_loop E earlier w) = None"
    and "\<not> os_path_exists (snd (season_loop E earlier w)) (outpath s)"
    and "fst (getSchedule E (year s) (code (type s)) (srNBAKey_value E)
           (emit (Sleep 1) (emit (Print (''downloading '' @ fileName s))
              (snd (season_loop E earlier w))))) = Inl e"
  shows "fst (season_loop E (earlier @ s # later) w) = Some e
         \<and> files (snd (season_loop E (earlier @ s # later) w))
             = files (snd (season_loop E earlier w))
         \<and> new_events (snd (season_loop E earlier w))
             (snd (season_loop E (earlier @ s # later) w)) = body_events E s"
proof -
  obtain w1 where w1: "season_loop E earlier w = (None, w1)"
    using assms(1) by (cases "season_loop E earlier w") auto
  have absent: "\<not> os_path_exists w1 (outpath s)" using assms(2) w1 by simp
  have raise: "fst (getSchedule E (year s) (code (type s)) (srNBAKey_value E)
           (emit (Sleep 1) (emit (Print (''downloading '' @ fileName s)) w1))) = Inl e"
    using assms(3) w1 by simp
  define w2 where "w2 = w1\<lparr>trace := trace w1 @ body_events E s\<rparr>"
  have w2: "season_body E s w1 = (Some e, w2)"
    unfolding w2_def using absent raise by (rule season_body_raise)
  have f: "files w2 = files w1" and t: "trace w2 = trace w1 @ body_events E s"
    by (simp_all add: w2_def)
  have "season_loop E (earlier @ s # later) w = (Some e, w2)"
    using w1 w2 by (simp add: season_loop_append)
  then show ?thesis using w1 f t by (simp add: new_events_def)
qed

theorem fail_fast_witness:
  "fst (season_loop flaky_env [reg2021, pst2022] empty_world) = None
   \<and> fst (season_loop flaky_env ([reg2021, pst2022] @ reg2023 # [pst2021, pst2023]) empty_world)
       = Some OSError
   \<and> files (snd (season_loop flaky_env ([reg2021, pst2022] @ reg2023 # [pst2021, pst2023])
        empty_world))
       = files (snd (season_loop flaky_env [reg2021, pst2022] empty_world))
   \<and> new_events (snd (season_loop flaky_env [reg2021, pst2022] empty_world))
        (snd (season_loop flaky_env ([reg2021, pst2022] @ reg2023 # [pst2021, pst2023])
           empty_world))
       = body_events flaky_env reg2023"
proof -
  have h1: "fst (season_loop flaky_env [reg2021, pst2022] empty_world) = None"
    by (simp add: run_simps input_simps)
  have h2: "\<not> os_path_exists (snd (season_loop flaky_env [reg2021, pst2022] empty_world))
      (outpath reg2023)"
    by (simp add: run_simps input_simps)
  have h3: "fst (getSchedule flaky_env (year reg2023) (code (type reg2023))
      (srNBAKey_value flaky_env)
      (emit (Sleep 1) (emit (Print (''downloading '' @ fileName reg2023))
         (snd (season_loop flaky_env [reg2021, pst2022] empty_world))))) = Inl OSError"
    by (simp add: run_simps input_simps)
  show ?thesis using h1 fail_fast [OF h1 h2 h3, of "[pst2021, pst2023]"] by blast
qed

text \<open>
  As the claim has it, a response that is not a success would end the run. Lines 40 to 42
  never look at the status: when the third of five seasons is refused with status 403 and
  a JSON body, that body is cached like a schedule, the run ends without an error, and the
  fourth and the fifth season are requested.
\<close>

theorem non_success_response_goes_on:
  "remote refused_env
     (trace (snd (season_loop refused_env [reg2021, pst2022] empty_world))
        @ [Print ''downloading schedREG2023.json'', Sleep 1])
     (schedule_request 2023 ''REG'' ''key'') = Inr \<lparr>status = 403, body = ''{}''\<rparr>
   \<and> fst (season_loop refused_env [reg2021, pst2022, reg2023, pst2021, pst2023] empty_world)
       = None
   \<and> requests (new_events empty_world
        (snd (season_loop refused_env [reg2021, pst2022, reg2023, pst2021, pst2023] empty_world)))
       = [schedule_request 2021 ''REG'' ''key'', schedule_request 2022 ''PST'' ''key'',
          schedule_request 2023 ''REG'' ''key'', schedule_request 2021 ''PST'' ''key'',
          schedule_request 2023 ''PST'' ''key'']
   \<and> files (snd (season_loop refused_env [reg2021, pst2022, reg2023, pst2021, pst2023]
        empty_world)) ''D:/nbaBlog/schedules/schedREG2023.json'' = Some ''{}''"
  by (simp add: run_simps input_simps)

subsection \<open>At most one request for a season\<close>

text \<open>
  C7. In every run, the request for the schedule of a season is made at most once, however
  often the season is in the list.
\<close>

theorem at_most_one_fetch:
  "count_list (requests (new_events w (snd (season_loop E allSeasons w))))
     (schedule_request (year s) (code (type s)) (srNBAKey_value E)) \<le> 1"
  using requests_distinct [of w E allSeasons] by (rule distinct_count_le_1)

text \<open>A season that is twice in the list is requested once.\<close>

lemma repeated_season_fetched_once:
  "requests (new_events empty_world (snd (season_loop ok_env [reg2021, reg2021] empty_world)))
     = [schedule_request 2021 ''REG'' ''key'']"
  by (simp add: run_simps input_simps)

subsection \<open>The pause before a request\<close>

text \<open>
  C8. Among the events of a run, every request comes right after a pause of 1: no request
  is the first event, and the event before a request is \<open>Sleep 1\<close>.
\<close>

theorem sleep_before_every_fetch:
  assumes "i < length (new_events w (snd (season_loop E allSeasons w)))"
    and "new_events w (snd (season_loop E allSeasons w)) ! i = Request r"
  shows "0 < i \<and> new_events w (snd (season_loop E allSeasons w)) ! (i - 1) = Sleep 1"
  using throttled_loop assms by (rule throttled_nth)

theorem sleep_before_every_fetch_witness:
  "2 < length (new_events empty_world (snd (season_loop ok_env [pst2022] empty_world)))
   \<and> new_events empty_world (snd (season_loop ok_env [pst2022] empty_world)) ! 2
       = Request (schedule_request 2022 ''PST'' ''key'')
   \<and> new_events empty_world (snd (season_loop ok_env [pst2022] empty_world)) ! (2 - 1) = Sleep 1"
proof -
  have h1: "2 < length (new_events empty_world (snd (season_loop ok_env [pst2022] empty_world)))"
    by (simp add: run_simps input_simps)
  have h2: "new_events empty_world (snd (season_loop ok_env [pst2022] empty_world)) ! 2
       = Request (schedule_request 2022 ''PST'' ''key'')"
    by (simp add: run_simps input_simps)
  show ?thesis using h1 h2 sleep_before_every_fetch [OF h1 h2] by blast
qed

subsection \<open>What a run does to the files\<close>




subsection \<open>The round trip through the cache file\<close>









end
